theory Spec2Isabelle
  imports Main
begin

section \<open>Strings of UTF-16 code units\<close>

text \<open>
  A JavaScript string is a sequence of 16-bit code units, and a regular expression without
  the \<open>u\<close> flag works on code units. A code unit is modelled as a natural number, a string
  as a list of them. \<open>cu\<close> turns an ASCII literal into such a list; the backslash (92), the
  line feed (10) and the characters beyond ASCII are written as numbers.
\<close>

type_synonym cunit = nat

definition cu :: "string \<Rightarrow> cunit list" where
  "cu s = map of_char s"

definition isLineTerminator :: "cunit \<Rightarrow> bool" where
  "isLineTerminator c = (c = 10 \<or> c = 13 \<or> c = 8232 \<or> c = 8233)"

text \<open>The set matched by \<open>\s\<close> and removed by \<open>trim()\<close>: WhiteSpace and LineTerminator.\<close>

definition isWhiteSpace :: "cunit \<Rightarrow> bool" where
  "isWhiteSpace c =
     (c = 9 \<or> c = 10 \<or> c = 11 \<or> c = 12 \<or> c = 13 \<or> c = 32 \<or> c = 160 \<or> c = 5760
      \<or> (8192 \<le> c \<and> c \<le> 8202) \<or> c = 8232 \<or> c = 8233 \<or> c = 8239 \<or> c = 8287
      \<or> c = 12288 \<or> c = 65279)"

definition isDigit :: "cunit \<Rightarrow> bool" where
  "isDigit c = (48 \<le> c \<and> c \<le> 57)"

definition isWordChar :: "cunit \<Rightarrow> bool" where
  "isWordChar c = ((97 \<le> c \<and> c \<le> 122) \<or> (65 \<le> c \<and> c \<le> 90) \<or> isDigit c \<or> c = 95)"

text \<open>
  Canonicalize of the regular-expression semantics under the \<open>i\<close> flag (no \<open>u\<close> flag): the
  code unit's upper case when that is one code unit, except that a unit from 128 on is
  never mapped below 128. The table is written out for ASCII, Latin-1 and the Greek
  letters with their symbol variants (\<open>\<mu>\<close> as micro sign, final sigma, \<open>\<beta> \<theta> \<phi> \<pi> \<rho> \<epsilon>\<close> symbols): these
  are all the code units whose upper case is the upper case of a character that occurs in
  a case-insensitive pattern of the program. Every other unit is left as it is, which no
  comparison with a pattern character can tell from its real upper case.
\<close>

definition canonicalize :: "cunit \<Rightarrow> cunit" where
  "canonicalize c =
     (if c < 128 then (if 97 \<le> c \<and> c \<le> 122 then c - 32 else c)
      else if c = 181 then 924
      else if 224 \<le> c \<and> c \<le> 254 \<and> c \<noteq> 247 then c - 32
      else if c = 962 then 931
      else if 945 \<le> c \<and> c \<le> 969 then c - 32
      else if c = 976 then 914
      else if c = 977 then 920
      else if c = 981 then 934
      else if c = 982 then 928
      else if c = 1009 then 929
      else if c = 1013 then 917
      else c)"

definition trim :: "cunit list \<Rightarrow> cunit list" where
  "trim s = rev (dropWhile isWhiteSpace (rev (dropWhile isWhiteSpace s)))"

fun join :: "cunit list \<Rightarrow> cunit list list \<Rightarrow> cunit list" where
  "join sep [] = []"
| "join sep [l] = l"
| "join sep (l # ls) = l @ sep @ join sep ls"

section \<open>Regular expressions\<close>

text \<open>
  The patterns of the program use character classes, literals, sequence, alternation,
  greedy and lazy repetition, capture groups, a positive lookahead, the assertions
  \<open>^\<close>, \<open>$\<close>, \<open>\b\<close> and the flags \<open>g\<close>, \<open>i\<close>, \<open>m\<close>. A pattern is a value of \<open>regex\<close>; \<open>r+\<close> is
  \<open>Plus r\<close> and \<open>r?\<close> is \<open>Opt r\<close>.
\<close>

datatype flags = Flags (ignoreCase: bool) (multiline: bool)

datatype citem = One cunit | Range cunit cunit | Space | NonSpace | Digit

fun citem_match :: "bool \<Rightarrow> citem \<Rightarrow> cunit \<Rightarrow> bool" where
  "citem_match ic (One a) c = (if ic then canonicalize a = canonicalize c else a = c)"
| "citem_match ic (Range a b) c =
     (if ic then list_ex (\<lambda>x. canonicalize x = canonicalize c) [a..<Suc b]
      else (a \<le> c \<and> c \<le> b))"
| "citem_match ic Space c = isWhiteSpace c"
| "citem_match ic NonSpace c = (\<not> isWhiteSpace c)"
| "citem_match ic Digit c = isDigit c"

definition class_match :: "bool \<Rightarrow> bool \<Rightarrow> citem list \<Rightarrow> cunit \<Rightarrow> bool" where
  "class_match ic neg items c = (list_ex (\<lambda>it. citem_match ic it c) items \<noteq> neg)"

datatype regex =
    Eps
  | Cls bool "citem list"
  | Dot
  | Str "cunit list"
  | Seq regex regex
  | Alt regex regex
  | Star regex
  | LazyStar regex
  | Group nat regex
  | Ahead regex
  | Bol
  | Eol
  | WordB

definition Plus :: "regex \<Rightarrow> regex" where
  "Plus r = Seq r (Star r)"

definition Opt :: "regex \<Rightarrow> regex" where
  "Opt r = Alt r Eps"

definition Chr :: "char \<Rightarrow> regex" where
  "Chr c = Cls False [One (of_char c)]"

definition ones :: "string \<Rightarrow> citem list" where
  "ones s = map (\<lambda>c. One (of_char c)) s"

fun seqs :: "regex list \<Rightarrow> regex" where
  "seqs [] = Eps"
| "seqs [r] = r"
| "seqs (r # rs) = Seq r (seqs rs)"

fun alts :: "regex list \<Rightarrow> regex" where
  "alts [] = Cls False []"
| "alts [r] = r"
| "alts (r # rs) = Alt r (alts rs)"

definition wordsOf :: "string list \<Rightarrow> regex" where
  "wordsOf ws = alts (map (\<lambda>w. Str (cu w)) ws)"

text \<open>
  The state of a match: the code unit before the current position (none at the start of
  the input), the input from the current position on, and the captures made so far
  (the latest first).
\<close>

datatype mstate =
  MState (prev: "cunit option") (rest: "cunit list") (caps: "(nat \<times> cunit list) list")

fun str_match ::
  "bool \<Rightarrow> cunit list \<Rightarrow> cunit option \<Rightarrow> cunit list \<Rightarrow> (cunit option \<times> cunit list) option" where
  "str_match ic [] p cs = Some (p, cs)"
| "str_match ic (w # ws) p [] = None"
| "str_match ic (w # ws) p (c # cs) =
     (if (if ic then canonicalize w = canonicalize c else w = c)
      then str_match ic ws (Some c) cs else None)"

definition wordAt :: "cunit option \<Rightarrow> bool" where
  "wordAt p = (case p of None \<Rightarrow> False | Some c \<Rightarrow> isWordChar c)"

definition nextUnit :: "cunit list \<Rightarrow> cunit option" where
  "nextUnit cs = (case cs of [] \<Rightarrow> None | c # _ \<Rightarrow> Some c)"

definition ltAt :: "cunit option \<Rightarrow> bool" where
  "ltAt p = (case p of None \<Rightarrow> False | Some c \<Rightarrow> isLineTerminator c)"

text \<open>
  \<open>m f r x\<close> lists the states in which a match of \<open>r\<close> from \<open>x\<close> can end, in the order in
  which the backtracking matcher of the language tries them: the first alternative
  first, the longest repetition first for a greedy star and the shortest first for a
  lazy one. A repetition step that consumes nothing is refused, as the language does.
  The lookahead keeps the captures of the first match of its body and does not move.
\<close>

function (sequential) m :: "flags \<Rightarrow> regex \<Rightarrow> mstate \<Rightarrow> mstate list" where
  "m f Eps x = [x]"
| "m f (Cls neg items) x =
     (case rest x of [] \<Rightarrow> []
      | c # cs \<Rightarrow> if class_match (ignoreCase f) neg items c
                  then [MState (Some c) cs (caps x)] else [])"
| "m f Dot x =
     (case rest x of [] \<Rightarrow> []
      | c # cs \<Rightarrow> if isLineTerminator c then [] else [MState (Some c) cs (caps x)])"
| "m f (Str w) x =
     (case str_match (ignoreCase f) w (prev x) (rest x) of None \<Rightarrow> []
      | Some (p, cs) \<Rightarrow> [MState p cs (caps x)])"
| "m f (Seq a b) x = concat (map (m f b) (m f a x))"
| "m f (Alt a b) x = m f a x @ m f b x"
| "m f (Star r) x =
     concat (map (\<lambda>y. if length (rest y) < length (rest x) then m f (Star r) y else [])
                 (m f r x)) @ [x]"
| "m f (LazyStar r) x =
     x # concat (map (\<lambda>y. if length (rest y) < length (rest x) then m f (LazyStar r) y else [])
                     (m f r x))"
| "m f (Group k r) x =
     map (\<lambda>y. MState (prev y) (rest y)
                      ((k, take (length (rest x) - length (rest y)) (rest x)) # caps y))
         (m f r x)"
| "m f (Ahead r) x =
     (case m f r x of [] \<Rightarrow> [] | y # _ \<Rightarrow> [MState (prev x) (rest x) (caps y)])"
| "m f Bol x = (if prev x = None \<or> (multiline f \<and> ltAt (prev x)) then [x] else [])"
| "m f Eol x = (if rest x = [] \<or> (multiline f \<and> ltAt (nextUnit (rest x))) then [x] else [])"
| "m f WordB x = (if wordAt (prev x) \<noteq> wordAt (nextUnit (rest x)) then [x] else [])"
  by pat_completeness auto
termination
  by (relation "measures [\<lambda>(f, r, x). size r, \<lambda>(f, r, x). length (rest x)]") auto

text \<open>The match that starts at the current position, if there is one.\<close>

definition match_at :: "flags \<Rightarrow> regex \<Rightarrow> cunit option \<Rightarrow> cunit list \<Rightarrow> mstate option" where
  "match_at f r p cs =
     (case m f r (MState p cs []) of [] \<Rightarrow> None | y # _ \<Rightarrow> Some y)"

text \<open>The first match at or after the current position (\<open>RegExp.prototype.exec\<close>).\<close>

fun search :: "flags \<Rightarrow> regex \<Rightarrow> cunit option \<Rightarrow> cunit list \<Rightarrow> mstate option" where
  "search f r p [] = match_at f r p []"
| "search f r p (c # cs) =
     (case match_at f r p (c # cs) of Some y \<Rightarrow> Some y | None \<Rightarrow> search f r (Some c) cs)"

text \<open>\<open>re.test(s)\<close> on a regular expression whose \<open>lastIndex\<close> is 0 or that has no \<open>g\<close> flag.\<close>

definition test :: "flags \<Rightarrow> regex \<Rightarrow> cunit list \<Rightarrow> bool" where
  "test f r s = (search f r None s \<noteq> None)"

text \<open>
  \<open>re.test(s)\<close> on a regular-expression object with the \<open>g\<close> flag: the search starts at
  the object's \<open>lastIndex\<close>, which becomes the end of the match, or 0 when there is none.
\<close>

definition test_g :: "flags \<Rightarrow> regex \<Rightarrow> nat \<Rightarrow> cunit list \<Rightarrow> bool \<times> nat" where
  "test_g f r lastIndex s =
     (if length s < lastIndex then (False, 0)
      else case search f r (if lastIndex = 0 then None else Some (s ! (lastIndex - 1)))
                  (drop lastIndex s) of
             None \<Rightarrow> (False, 0)
           | Some y \<Rightarrow> (True, length s - length (rest y)))"

text \<open>
  The replacement string: literal units and the references \<open>$1\<close>, \<open>$2\<close>; a group that did
  not take part in the match gives the empty string.
\<close>

datatype titem = TLit cunit | TRef nat

fun expand :: "titem list \<Rightarrow> (nat \<times> cunit list) list \<Rightarrow> cunit list" where
  "expand [] cp = []"
| "expand (TLit c # ts) cp = c # expand ts cp"
| "expand (TRef k # ts) cp =
     (case map_of cp k of None \<Rightarrow> [] | Some v \<Rightarrow> v) @ expand ts cp"

text \<open>
  \<open>s.replace(re, template)\<close> with the \<open>g\<close> flag, from the current position on: every match is
  replaced, the search going on at the end of the match; after an empty match the unit at
  that position is copied and the search goes on behind it.
\<close>

function replace_from ::
  "flags \<Rightarrow> regex \<Rightarrow> titem list \<Rightarrow> cunit option \<Rightarrow> cunit list \<Rightarrow> cunit list" where
  "replace_from f r t p cs =
     (case match_at f r p cs of
        None \<Rightarrow> (case cs of [] \<Rightarrow> [] | c # cs' \<Rightarrow> c # replace_from f r t (Some c) cs')
      | Some y \<Rightarrow>
          expand t (caps y) @
          (if length (rest y) < length cs then replace_from f r t (prev y) (rest y)
           else case cs of [] \<Rightarrow> [] | c # cs' \<Rightarrow> c # replace_from f r t (Some c) cs'))"
  by pat_completeness auto
termination
  by (relation "measure (\<lambda>(f, r, t, p, cs). length cs)") auto

definition replace :: "flags \<Rightarrow> regex \<Rightarrow> titem list \<Rightarrow> cunit list \<Rightarrow> cunit list" where
  "replace f r t s = replace_from f r t None s"

text \<open>\<open>s.match(re)\<close> with the \<open>g\<close> flag: the matched substrings, in order.\<close>

function match_from :: "flags \<Rightarrow> regex \<Rightarrow> cunit option \<Rightarrow> cunit list \<Rightarrow> cunit list list" where
  "match_from f r p cs =
     (case match_at f r p cs of
        None \<Rightarrow> (case cs of [] \<Rightarrow> [] | c # cs' \<Rightarrow> match_from f r (Some c) cs')
      | Some y \<Rightarrow>
          take (length cs - length (rest y)) cs #
          (if length (rest y) < length cs then match_from f r (prev y) (rest y)
           else case cs of [] \<Rightarrow> [] | c # cs' \<Rightarrow> match_from f r (Some c) cs'))"
  by pat_completeness auto
termination
  by (relation "measure (\<lambda>(f, r, p, cs). length cs)") auto

definition match_all :: "flags \<Rightarrow> regex \<Rightarrow> cunit list \<Rightarrow> cunit list list" where
  "match_all f r s = match_from f r None s"

text \<open>
  \<open>s.split(re)\<close> for a pattern without groups: the pieces between the matches. A match is
  tried at every position before the end; an empty match at the start of a piece is
  passed over, one inside a piece ends the piece there.
\<close>

function split_from ::
  "flags \<Rightarrow> regex \<Rightarrow> cunit option \<Rightarrow> cunit list \<Rightarrow> cunit list \<Rightarrow> cunit list list" where
  "split_from f r p cs acc =
     (case cs of
        [] \<Rightarrow> [rev acc]
      | c # cs' \<Rightarrow>
          (case match_at f r p cs of
             None \<Rightarrow> split_from f r (Some c) cs' (c # acc)
           | Some y \<Rightarrow>
               if length (rest y) < length cs then rev acc # split_from f r (prev y) (rest y) []
               else if acc = [] then split_from f r (Some c) cs' [c]
               else rev acc # split_from f r (Some c) cs' [c]))"
  by pat_completeness auto
termination
  by (relation "measure (\<lambda>(f, r, p, cs, acc). length cs)") auto

definition split :: "flags \<Rightarrow> regex \<Rightarrow> cunit list \<Rightarrow> cunit list list" where
  "split f r s =
     (if s = [] then (if match_at f r None [] = None then [[]] else [])
      else split_from f r None s [])"

section \<open>The patterns of \<open>sanitizeOutput\<close>\<close>

text \<open>
  The flags \<open>i\<close> and \<open>m\<close> change what a pattern matches and are given to the matcher. The
  flag \<open>g\<close> changes what \<open>replace\<close>, \<open>match\<close> and \<open>test\<close> do with a pattern: \<open>replace\<close> and
  \<open>match_all\<close> above are the operations with \<open>g\<close>, \<open>test_g\<close> is \<open>test\<close> on an object that
  keeps its \<open>lastIndex\<close>. So \<open>fl_g\<close> also stands for no flag at all, and \<open>fl_gi\<close> for \<open>i\<close>.
\<close>

definition fl_g :: flags where
  "fl_g = Flags False False"

definition fl_gm :: flags where
  "fl_gm = Flags False True"

definition fl_gi :: flags where
  "fl_gi = Flags True False"

definition re_s :: regex where
  "re_s = Cls False [Space]"

definition re_d :: regex where
  "re_d = Cls False [Digit]"

text \<open>
  The characters beyond ASCII in the classes, as code units:
  square root 8730, \<open>\<pi>\<close> 960, n-ary sum 8721, integral 8747,
  \<open>\<alpha>\<close> 945, \<open>\<beta>\<close> 946, \<open>\<gamma>\<close> 947, \<open>\<delta>\<close> 948, \<open>\<epsilon>\<close> 949, \<open>\<theta>\<close> 952, \<open>\<lambda>\<close> 955, \<open>\<mu>\<close> 956, \<open>\<rho>\<close> 961,
  \<open>\<sigma>\<close> 963, \<open>\<phi>\<close> 966, \<open>\<chi>\<close> 967, \<open>\<psi>\<close> 968, \<open>\<omega>\<close> 969, \<open>\<Delta>\<close> 916, nabla 8711, partial 8706,
  \<open>\<le>\<close> 8804, \<open>\<ge>\<close> 8805, \<open>\<noteq>\<close> 8800, almost equal 8776, plus-minus 177, times 215, division 247,
  degree 176, superscript two 178, superscript three 179, bullet 8226.
\<close>

definition greek :: "citem list" where
  "greek = map One [945, 946, 947, 948, 949, 952, 955, 956, 961, 963, 966, 967, 968, 969,
                    916, 8711, 8706]"

text \<open>\<open>0-9+\-*/=()^\<close>, square root, \<open>\<pi>\<close>, sum, integral and the Greek letters (lines 114 and 121).\<close>

definition opItems :: "citem list" where
  "opItems = Range 48 57 # ones ''+-*/=()^'' @ map One [8730, 960, 8721, 8747] @ greek"

text \<open>\<open>xyzabcXYZABC\<close> and the comparison and arithmetic signs (line 123).\<close>

definition varItems :: "citem list" where
  "varItems = ones ''xyzabcXYZABC'' @ map One [8804, 8805, 8800, 8776, 177, 215, 247, 176]"

text \<open>The class of lines 81 and 107.\<close>

definition mathItems :: "citem list" where
  "mathItems = opItems @ varItems"

definition qualifierWords :: "string list" where
  "qualifierWords = [''Total'', ''Per'', ''Each'', ''Initial'', ''Final'', ''Net'', ''Average'',
                     ''Sum'', ''Difference'']"

text \<open>Line 66: \<open>/\\?\[\\?\]/g\<close>.\<close>

definition re_brackets :: regex where
  "re_brackets = seqs [Opt (Cls False [One 92]), Chr CHR ''['', Opt (Cls False [One 92]), Chr CHR '']'']"

text \<open>Line 67: \<open>/\$\$?/g\<close>.\<close>

definition re_dollar :: regex where
  "re_dollar = Seq (Chr CHR ''$'') (Opt (Chr CHR ''$''))"

text \<open>Line 68: \<open>/\\text\{[^}]*\}/g\<close>.\<close>

definition re_text :: regex where
  "re_text = seqs [Str (92 # cu ''text{''), Star (Cls True (ones ''}'')), Chr CHR ''}'']"

text \<open>Line 69: \<open>/\\frac\{[^}]*\}\{[^}]*\}/g\<close>.\<close>

definition re_frac :: regex where
  "re_frac = seqs [Str (92 # cu ''frac{''), Star (Cls True (ones ''}'')), Str (cu ''}{''),
                   Star (Cls True (ones ''}'')), Chr CHR ''}'']"

text \<open>Line 71: \<open>/\/\/.*$/gm\<close>.\<close>

definition re_line_comment :: regex where
  "re_line_comment = seqs [Str (cu ''//''), Star Dot, Eol]"

text \<open>Line 72: \<open>/\/\*[\s\S]*?\*\//g\<close>.\<close>

definition re_block_comment :: regex where
  "re_block_comment = seqs [Str (cu ''/*''), LazyStar (Cls False [Space, NonSpace]), Str (cu ''*/'')]"

text \<open>Line 73: \<open>/#.*$/gm\<close>.\<close>

definition re_hash :: regex where
  "re_hash = seqs [Chr CHR ''#'', Star Dot, Eol]"

text \<open>Line 75: \<open>/^\s*\d+\.\s*/gm\<close>.\<close>

definition re_step_number :: regex where
  "re_step_number = seqs [Bol, Star re_s, Plus re_d, Chr CHR ''.'', Star re_s]"

text \<open>Line 76: \<open>/\b(Step\s+\d+:|Step\s+\d+)\b/gi\<close>.\<close>

definition re_step_label :: regex where
  "re_step_label =
     seqs [WordB,
           Group 1 (Alt (seqs [Str (cu ''Step''), Plus re_s, Plus re_d, Chr CHR '':''])
                        (seqs [Str (cu ''Step''), Plus re_s, Plus re_d])),
           WordB]"

text \<open>Line 78.\<close>

definition re_words :: regex where
  "re_words =
     seqs [WordB,
           Group 1 (wordsOf [''Therefore'', ''Thus'', ''Hence'', ''So'', ''Answer:'', ''Solution:'',
                             ''Result:'', ''Calculate'', ''Apply'', ''Total'', ''Each'', ''The'',
                             ''This'', ''That'', ''We'', ''You'', ''I'']),
           WordB]"

text \<open>Line 79.\<close>

definition re_phrases :: regex where
  "re_phrases =
     seqs [WordB,
           Group 1 (wordsOf [''The answer is'', ''The result is'', ''The solution is'', ''We have'',
                             ''We get'', ''We find'', ''Note:'', ''Note that'', ''Apply the formula'',
                             ''Calculate the'', ''Total apples'', ''Total people'', ''Each person'',
                             ''Each person can'', ''can have'']),
           WordB]"

text \<open>Line 81: \<open>/^[^...]*$/gm\<close> over the class \<open>mathItems\<close>.\<close>

definition re_prose_line :: regex where
  "re_prose_line = seqs [Bol, Star (Cls True mathItems), Eol]"

text \<open>Line 83: \<open>/\([^)]*(?:note|Note|explanation|...|Description)[^)]*\)/gi\<close>.\<close>

definition re_aside :: regex where
  "re_aside =
     seqs [Chr CHR ''('', Star (Cls True (ones '')'')),
           wordsOf [''note'', ''Note'', ''explanation'', ''Explanation'', ''comment'', ''Comment'',
                    ''description'', ''Description''],
           Star (Cls True (ones '')'')), Chr CHR '')'']"

text \<open>Lines 85 and 138: \<open>/\b(Total|Per|...|Difference)\s+[a-zA-Z]+\b/gi\<close>.\<close>

definition re_qualifier :: regex where
  "re_qualifier =
     seqs [WordB, Group 1 (wordsOf qualifierWords), Plus re_s,
           Plus (Cls False [Range 97 122, Range 65 90]), WordB]"

text \<open>Line 87: \<open>/[;:](?=\s*$)/gm\<close>.\<close>

definition re_trailing_punct :: regex where
  "re_trailing_punct = Seq (Cls False (ones '';:'')) (Ahead (Seq (Star re_s) Eol))"

text \<open>Line 89: \<open>/^\s*[bullet*\-]\s+/gm\<close>.\<close>

definition re_bullet_lead :: regex where
  "re_bullet_lead = seqs [Bol, Star re_s, Cls False (One 8226 # ones ''*-''), Plus re_s]"

text \<open>Line 90: \<open>/\s*[bullet*\-]\s*$/gm\<close>.\<close>

definition re_bullet_trail :: regex where
  "re_bullet_trail = seqs [Star re_s, Cls False (One 8226 # ones ''*-''), Star re_s, Eol]"

text \<open>Line 91: \<open>/[^\S\r\n]+/g\<close>.\<close>

definition re_hspace :: regex where
  "re_hspace = Plus (Cls True [NonSpace, One 13, One 10])"

text \<open>Line 94.\<close>

definition equipmentPattern :: regex where
  "equipmentPattern =
     seqs [WordB,
           Group 1 (wordsOf [''spectrophotometer'', ''calorimeter'', ''oscilloscope'', ''voltmeter'',
              ''ammeter'', ''multimeter'', ''thermometer'', ''barometer'', ''manometer'', ''burette'',
              ''pipette'', ''beaker'', ''flask'', ''test tube'', ''microscope'', ''telescope'', ''laser'',
              ''prism'', ''lens'', ''mirror'', ''resistor'', ''capacitor'', ''inductor'', ''transformer'',
              ''generator'', ''motor'', ''sensor'', ''detector'', ''analyzer'', ''chromatograph'',
              ''mass spectrometer'', ''NMR'', ''IR'', ''UV'', ''X-ray'', ''electron microscope'']),
           WordB]"

text \<open>Line 97; 246 is o with diaeresis, 244 is o with circumflex.\<close>

definition methodPattern :: regex where
  "methodPattern =
     seqs [WordB,
           Group 1 (alts (map Str (
              map cu [''integration'', ''differentiation'', ''derivative'', ''integral'',
                ''substitution'', ''quadratic formula'', ''Pythagorean theorem'', ''Newton'',
                ''conservation'', ''momentum'', ''energy'', ''force'', ''acceleration'', ''velocity'',
                ''displacement'', ''kinematics'', ''dynamics'', ''thermodynamics'', ''electrostatics'',
                ''magnetism'', ''optics'', ''quantum'', ''relativity'', ''stoichiometry'', ''equilibrium'',
                ''reaction'', ''oxidation'', ''reduction'', ''acid'', ''base'', ''pH'', ''molarity'',
                ''molar mass'', ''Avogadro'', ''ideal gas'', ''Boyle'', ''Charles'', ''Gay-Lussac'', ''Ohm'',
                ''Kirchhoff'', ''Faraday'', ''Maxwell'', ''Einstein'']
              @ [cu ''Schr'' @ [246] @ cu ''dinger'']
              @ map cu [''Heisenberg'', ''Bohr'', ''Planck'', ''de Broglie'', ''Fourier'', ''Laplace'',
                ''Taylor'', ''Maclaurin'']
              @ [cu ''L'H'' @ [244] @ cu ''pital'']
              @ map cu [''chain rule'', ''product rule'', ''quotient rule'', ''integration by parts'',
                ''partial fractions'', ''trigonometric substitution'', ''u-substitution'']))),
           WordB]"

text \<open>Line 100: \<open>/\r?\n/\<close>.\<close>

definition re_newline :: regex where
  "re_newline = Seq (Opt (Cls False [One 13])) (Cls False [One 10])"

text \<open>Line 107: the class \<open>mathItems\<close>, with the \<open>g\<close> flag.\<close>

definition re_math_symbol :: regex where
  "re_math_symbol = Cls False mathItems"

text \<open>Line 108: \<open>/\s+/\<close>.\<close>

definition re_spaces :: regex where
  "re_spaces = Plus re_s"

text \<open>Line 113.\<close>

definition re_descriptive :: regex where
  "re_descriptive =
     seqs [WordB,
           Group 1 (wordsOf [''Total'', ''Each'', ''Per'', ''Apply'', ''Calculate'', ''Step'', ''The'',
                             ''This'', ''That'', ''We'', ''You'', ''I'', ''can'', ''have'', ''is'', ''are'',
                             ''was'', ''were'']),
           WordB]"

text \<open>Lines 114 and 121: the class \<open>opItems\<close>, with the \<open>i\<close> flag.\<close>

definition re_op :: regex where
  "re_op = Cls False opItems"

text \<open>Line 117: \<open>/^(True|False)$/i\<close>.\<close>

definition re_bool :: regex where
  "re_bool = seqs [Bol, Group 1 (wordsOf [''True'', ''False'']), Eol]"

text \<open>Line 119: \<open>/^[A-E]$/i\<close>.\<close>

definition re_choice :: regex where
  "re_choice = seqs [Bol, Cls False [Range 65 69], Eol]"

text \<open>Line 123: the class \<open>varItems\<close>, with the \<open>i\<close> flag.\<close>

definition re_var :: regex where
  "re_var = Cls False varItems"

text \<open>Lines 125 and 127: \<open>/[0-9+\-*/=()]/i\<close>.\<close>

definition re_arith :: regex where
  "re_arith = Cls False (Range 48 57 # ones ''+-*/=()'')"

text \<open>Line 129: a letter, \<open>\s*\<close>, a relation sign, \<open>\s*\<close>, a letter, digit or operator.\<close>

definition re_formula :: regex where
  "re_formula =
     seqs [Cls False ([Range 97 122, Range 65 90] @ greek), Star re_s,
           Cls False (ones ''=<>'' @ map One [8804, 8805, 8800, 8776]), Star re_s,
           Cls False ([Range 97 122, Range 65 90, Range 48 57] @ greek @ ones ''+-*/()^''
                      @ map One [8730, 960, 8721, 8747, 178, 179])]"

text \<open>Line 141: \<open>/\b([a-zA-Z])\s+(\d+)\b/g\<close>.\<close>

definition re_letter_digit :: regex where
  "re_letter_digit =
     seqs [WordB, Group 1 (Cls False [Range 97 122, Range 65 90]), Plus re_s, Group 2 (Plus re_d), WordB]"

text \<open>Line 144.\<close>

definition re_letter_sub :: regex where
  "re_letter_sub =
     seqs [WordB, Group 1 (Cls False [Range 97 122, Range 65 90]), Plus re_s,
           Group 2 (wordsOf [''initial'', ''final'', ''total'', ''net'', ''max'', ''min'', ''avg'',
                             ''average'', ''sum'', ''diff'', ''delta'', ''change'', ''i'', ''f'']),
           WordB]"

text \<open>Line 147.\<close>

definition re_greek_digit :: regex where
  "re_greek_digit = seqs [Group 1 (Cls False greek), Plus re_s, Group 2 (Plus re_d)]"

text \<open>Line 150.\<close>

definition re_greek_sub :: regex where
  "re_greek_sub =
     seqs [Group 1 (Cls False greek), Plus re_s,
           Group 2 (wordsOf [''initial'', ''final'', ''total'', ''net'', ''max'', ''min'', ''avg'',
                             ''i'', ''f'']),
           WordB]"

text \<open>Line 153: \<open>/\b([A-Za-z])\s+([a-z]+)\b(?=\s*[=+\-*/()]|$)/g\<close>.\<close>

definition re_letter_word :: regex where
  "re_letter_word =
     seqs [WordB, Group 1 (Cls False [Range 65 90, Range 97 122]), Plus re_s,
           Group 2 (Plus (Cls False [Range 97 122])), WordB,
           Ahead (Alt (Seq (Star re_s) (Cls False (ones ''=+-*/()''))) Eol)]"

text \<open>Line 156: \<open>/\s*[;,]\s*$/g\<close>.\<close>

definition re_trailing_sep :: regex where
  "re_trailing_sep = seqs [Star re_s, Cls False (ones '';,''), Star re_s, Eol]"

text \<open>Line 157: \<open>/^['"]+|['"]+$/g\<close>; 39 is the apostrophe, 34 the double quote.\<close>

definition re_quotes :: regex where
  "re_quotes = Alt (Seq Bol (Plus (Cls False [One 39, One 34])))
                   (Seq (Plus (Cls False [One 39, One 34])) Eol)"

text \<open>Line 158: \<open>/[`~]/g\<close>.\<close>

definition re_tick :: regex where
  "re_tick = Cls False (ones ''`~'')"

text \<open>Line 161: \<open>/[ \t]+/g\<close>.\<close>

definition re_blanks :: regex where
  "re_blanks = Plus (Cls False [One 32, One 9])"

section \<open>\<open>sanitizeOutput\<close>\<close>

text \<open>
  Lines 64 to 91: the chain of \<open>replace\<close> calls on the whole text, in the order of the
  source. Every replacement is the empty string but the last one, a single space.
\<close>

definition cleanSteps :: "(flags \<times> regex \<times> titem list) list" where
  "cleanSteps =
     [(fl_g, re_brackets, []),
      (fl_g, re_dollar, []),
      (fl_g, re_text, []),
      (fl_g, re_frac, []),
      (fl_gm, re_line_comment, []),
      (fl_g, re_block_comment, []),
      (fl_gm, re_hash, []),
      (fl_gm, re_step_number, []),
      (fl_gi, re_step_label, []),
      (fl_gi, re_words, []),
      (fl_gi, re_phrases, []),
      (fl_gm, re_prose_line, []),
      (fl_gi, re_aside, []),
      (fl_gi, re_qualifier, []),
      (fl_gm, re_trailing_punct, []),
      (fl_gm, re_bullet_lead, []),
      (fl_gm, re_bullet_trail, []),
      (fl_g, re_hspace, [TLit 32])]"

definition run_steps :: "(flags \<times> regex \<times> titem list) list \<Rightarrow> cunit list \<Rightarrow> cunit list" where
  "run_steps steps s = foldl (\<lambda>acc (f, r, t). replace f r t acc) s steps"

definition cleaned :: "cunit list \<Rightarrow> cunit list" where
  "cleaned raw = run_steps cleanSteps raw"

text \<open>
  Lines 103 to 132, the callback of \<open>filter\<close>. \<open>equipmentPattern\<close> and \<open>methodPattern\<close>
  are objects with the \<open>g\<close> flag shared by all lines of one call, so \<open>test\<close> reads and
  writes their \<open>lastIndex\<close>: the callback takes the two values and returns them. The
  patterns written in the callback itself are fresh objects at every evaluation.
\<close>

record reState =
  equipmentLastIndex :: nat
  methodLastIndex :: nat

definition mathSymbols :: "cunit list \<Rightarrow> nat" where
  "mathSymbols line = length (match_all fl_g re_math_symbol line)"

definition textWords :: "cunit list \<Rightarrow> nat" where
  "textWords line = length (split fl_g re_spaces line)"

definition keep_line :: "reState \<Rightarrow> cunit list \<Rightarrow> bool \<times> reState" where
  "keep_line st line =
     (if line = [] then (False, st)
      else if textWords line > mathSymbols line * 2 \<and> mathSymbols line < 3 then (False, st)
      else if test fl_gi re_descriptive line \<and> \<not> test fl_gi re_op line then (False, st)
      else if test fl_gi re_bool line then (True, st)
      else if test fl_gi re_choice line then (True, st)
      else if test fl_gi re_op line then (True, st)
      else if test fl_gi re_var line then (True, st)
      else
        (case test_g fl_gi equipmentPattern (equipmentLastIndex st) line of (e, ei) \<Rightarrow>
           let st1 = st\<lparr>equipmentLastIndex := ei\<rparr> in
           if e \<and> test fl_gi re_arith line then (True, st1)
           else
             (case test_g fl_gi methodPattern (methodLastIndex st1) line of (k, mi) \<Rightarrow>
                let st2 = st1\<lparr>methodLastIndex := mi\<rparr> in
                if k \<and> test fl_gi re_arith line then (True, st2)
                else if test fl_gi re_formula line then (True, st2)
                else (False, st2))))"

fun filter_lines :: "reState \<Rightarrow> cunit list list \<Rightarrow> cunit list list \<times> reState" where
  "filter_lines st [] = ([], st)"
| "filter_lines st (l # ls) =
     (case keep_line st l of (keep, st') \<Rightarrow>
        (case filter_lines st' ls of (kept, st'') \<Rightarrow>
           (if keep then l # kept else kept, st'')))"

definition filteredLines :: "cunit list \<Rightarrow> cunit list list" where
  "filteredLines cl =
     fst (filter_lines \<lparr>equipmentLastIndex = 0, methodLastIndex = 0\<rparr>
            (map trim (split fl_g re_newline cl)))"

text \<open>Lines 135 to 164.\<close>

definition normalizeSteps :: "(flags \<times> regex \<times> titem list) list" where
  "normalizeSteps =
     [(fl_gi, re_qualifier, []),
      (fl_g, re_letter_digit, [TRef 1, TRef 2]),
      (fl_gi, re_letter_sub, [TRef 1, TRef 2]),
      (fl_g, re_greek_digit, [TRef 1, TRef 2]),
      (fl_gi, re_greek_sub, [TRef 1, TRef 2]),
      (fl_g, re_letter_word, [TRef 1, TRef 2]),
      (fl_g, re_trailing_sep, []),
      (fl_g, re_quotes, []),
      (fl_g, re_tick, []),
      (fl_g, re_blanks, [TLit 32])]"

definition normalizeVariables :: "cunit list \<Rightarrow> cunit list" where
  "normalizeVariables line = trim (run_steps normalizeSteps line)"

text \<open>
  Lines 60 to 171. The argument is \<open>None\<close> for \<open>null\<close> or \<open>undefined\<close>; these and the empty
  string are falsy and return the empty string at line 61.
\<close>

definition sanitizeOutput :: "cunit list option \<Rightarrow> cunit list" where
  "sanitizeOutput raw =
     (case raw of
        None \<Rightarrow> []
      | Some s \<Rightarrow>
          if s = [] then []
          else trim (join [10] (map normalizeVariables (filteredLines (cleaned s)))))"

section \<open>Notions used in the statements\<close>

text \<open>
  The decision of the \<open>filter\<close> callback on one line taken alone, with the \<open>lastIndex\<close> of
  both pattern objects at 0.
\<close>

definition keeps :: "cunit list \<Rightarrow> bool" where
  "keeps line = fst (keep_line \<lparr>equipmentLastIndex = 0, methodLastIndex = 0\<rparr> line)"

text \<open>
  \<open>within S u\<close>: the rest of the input and every capture of the state \<open>u\<close> consist of code
  units of \<open>S\<close>. \<open>tlits t\<close> are the literal units of a replacement string, \<open>steps_lits\<close>
  those of a chain of replacements.
\<close>

definition within :: "cunit set \<Rightarrow> mstate \<Rightarrow> bool" where
  "within S u = (set (rest u) \<subseteq> S \<and> list_all (\<lambda>kv. set (snd kv) \<subseteq> S) (caps u))"

definition tlits :: "titem list \<Rightarrow> cunit set" where
  "tlits t = set (concat (map (\<lambda>i. case i of TLit c \<Rightarrow> [c] | TRef k \<Rightarrow> []) t))"

definition steps_lits :: "(flags \<times> regex \<times> titem list) list \<Rightarrow> cunit set" where
  "steps_lits steps = \<Union> (set (map (\<lambda>(f, r, t). tlits t) steps))"







section \<open>Properties of the matcher\<close>

text \<open>
  The recursive equations of the scanning functions and of the two repetitions are
  unfolded only where a proof asks for them.
\<close>

declare replace_from.simps [simp del] match_from.simps [simp del] split_from.simps [simp del]
declare m.simps(7) [simp del] m.simps(8) [simp del]

lemma within_caps: "within S w \<Longrightarrow> set t \<subseteq> S \<Longrightarrow> within S (MState p (rest w) ((k, t) # caps w))"
  by (simp add: within_def)

lemma within_rest: "within S u \<Longrightarrow> set cs \<subseteq> set (rest u) \<Longrightarrow> within S (MState p cs (caps u))"
  by (auto simp add: within_def)

lemma within_caps_of: "within S u \<Longrightarrow> within S v \<Longrightarrow> within S (MState p (rest u) (caps v))"
  by (simp add: within_def)

lemma str_match_set: "str_match ic w p cs = Some (p', cs') \<Longrightarrow> set cs' \<subseteq> set cs"
  by (induction ic w p cs rule: str_match.induct) (auto split: if_splits)

lemma str_match_length: "str_match ic w p cs = Some (p', cs') \<Longrightarrow> length cs' \<le> length cs"
  by (induction ic w p cs rule: str_match.induct) (auto split: if_splits)

lemma m_Star_elem:
  "v \<in> set (m f (Star r) u) \<Longrightarrow>
     v = u \<or> (\<exists>w \<in> set (m f r u). length (rest w) < length (rest u) \<and> v \<in> set (m f (Star r) w))"
  by (subst (asm) m.simps(7)) (auto split: if_splits)

lemma m_LazyStar_elem:
  "v \<in> set (m f (LazyStar r) u) \<Longrightarrow>
     v = u \<or> (\<exists>w \<in> set (m f r u). length (rest w) < length (rest u) \<and> v \<in> set (m f (LazyStar r) w))"
  by (subst (asm) m.simps(8)) (auto split: if_splits)

lemma m_Cls_elem:
  "v \<in> set (m f (Cls neg items) u) \<Longrightarrow>
     \<exists>c cs. rest u = c # cs \<and> class_match (ignoreCase f) neg items c \<and> v = MState (Some c) cs (caps u)"
  by (cases "rest u") (auto split: if_splits)

lemma m_Dot_elem:
  "v \<in> set (m f Dot u) \<Longrightarrow> \<exists>c cs. rest u = c # cs \<and> v = MState (Some c) cs (caps u)"
  by (cases "rest u") (auto split: if_splits)

lemma m_Str_elem:
  "v \<in> set (m f (Str w) u) \<Longrightarrow>
     \<exists>p cs. str_match (ignoreCase f) w (prev u) (rest u) = Some (p, cs) \<and> v = MState p cs (caps u)"
  by (cases "str_match (ignoreCase f) w (prev u) (rest u)") auto

lemma m_Seq_elem: "v \<in> set (m f (Seq a b) u) \<Longrightarrow> \<exists>w \<in> set (m f a u). v \<in> set (m f b w)"
  by auto

lemma m_Alt_elem: "v \<in> set (m f (Alt a b) u) \<Longrightarrow> v \<in> set (m f a u) \<or> v \<in> set (m f b u)"
  by auto

lemma m_Group_elem:
  "v \<in> set (m f (Group k r) u) \<Longrightarrow>
     \<exists>w \<in> set (m f r u).
        v = MState (prev w) (rest w) ((k, take (length (rest u) - length (rest w)) (rest u)) # caps w)"
  by auto

lemma m_Ahead_elem:
  "v \<in> set (m f (Ahead r) u) \<Longrightarrow> \<exists>w \<in> set (m f r u). v = MState (prev u) (rest u) (caps w)"
  by (cases "m f r u") auto

lemma m_assert_elem:
  "v \<in> set (m f Eps u) \<Longrightarrow> v = u"
  "v \<in> set (m f Bol u) \<Longrightarrow> v = u"
  "v \<in> set (m f Eol u) \<Longrightarrow> v = u"
  "v \<in> set (m f WordB u) \<Longrightarrow> v = u"
  by (auto split: if_splits)

lemma m_within: "within S u \<Longrightarrow> v \<in> set (m f r u) \<Longrightarrow> within S v"
proof (induction f r u arbitrary: v rule: m.induct)
  case (1 f u)
  then show ?case using m_assert_elem(1) by blast
next
  case (2 f neg items u)
  from m_Cls_elem[OF "2.prems"(2)] obtain c cs where
    "rest u = c # cs" "v = MState (Some c) cs (caps u)" by blast
  then show ?case using within_rest[OF "2.prems"(1), of cs "Some c"] by auto
next
  case (3 f u)
  from m_Dot_elem[OF "3.prems"(2)] obtain c cs where
    "rest u = c # cs" "v = MState (Some c) cs (caps u)" by blast
  then show ?case using within_rest[OF "3.prems"(1), of cs "Some c"] by auto
next
  case (4 f w u)
  from m_Str_elem[OF "4.prems"(2)] obtain p cs where
    s: "str_match (ignoreCase f) w (prev u) (rest u) = Some (p, cs)"
    and v: "v = MState p cs (caps u)" by blast
  show ?case unfolding v by (rule within_rest[OF "4.prems"(1) str_match_set[OF s]])
next
  case (5 f a b u)
  from m_Seq_elem[OF "5.prems"(2)] obtain w where w: "w \<in> set (m f a u)" "v \<in> set (m f b w)"
    by blast
  have "within S w" by (rule "5.IH"(1)[OF "5.prems"(1) w(1)])
  then show ?case by (rule "5.IH"(2)[OF w(1) _ w(2)])
next
  case (6 f a b u)
  from m_Alt_elem[OF "6.prems"(2)] show ?case
    using "6.IH"(1)[OF "6.prems"(1)] "6.IH"(2)[OF "6.prems"(1)] by blast
next
  case (7 f r u)
  from m_Star_elem[OF "7.prems"(2)] show ?case
  proof
    assume "v = u" with "7.prems"(1) show ?thesis by simp
  next
    assume "\<exists>w \<in> set (m f r u). length (rest w) < length (rest u) \<and> v \<in> set (m f (Star r) w)"
    then obtain w where w: "w \<in> set (m f r u)" "length (rest w) < length (rest u)"
      "v \<in> set (m f (Star r) w)" by blast
    have "within S w" by (rule "7.IH"(1)[OF "7.prems"(1) w(1)])
    then show ?thesis by (rule "7.IH"(2)[OF w(1) w(2) _ w(3)])
  qed
next
  case (8 f r u)
  from m_LazyStar_elem[OF "8.prems"(2)] show ?case
  proof
    assume "v = u" with "8.prems"(1) show ?thesis by simp
  next
    assume "\<exists>w \<in> set (m f r u). length (rest w) < length (rest u) \<and> v \<in> set (m f (LazyStar r) w)"
    then obtain w where w: "w \<in> set (m f r u)" "length (rest w) < length (rest u)"
      "v \<in> set (m f (LazyStar r) w)" by blast
    have "within S w" by (rule "8.IH"(1)[OF "8.prems"(1) w(1)])
    then show ?thesis by (rule "8.IH"(2)[OF w(1) w(2) _ w(3)])
  qed
next
  case (9 f k r u)
  from m_Group_elem[OF "9.prems"(2)] obtain w where w: "w \<in> set (m f r u)"
    and v: "v = MState (prev w) (rest w) ((k, take (length (rest u) - length (rest w)) (rest u)) # caps w)"
    by blast
  have ww: "within S w" by (rule "9.IH"[OF "9.prems"(1) w])
  have "set (take (length (rest u) - length (rest w)) (rest u)) \<subseteq> set (rest u)"
    by (rule set_take_subset)
  moreover have "set (rest u) \<subseteq> S" using "9.prems"(1) by (simp add: within_def)
  ultimately have "set (take (length (rest u) - length (rest w)) (rest u)) \<subseteq> S"
    by (rule subset_trans)
  then show ?case unfolding v by (rule within_caps[OF ww])
next
  case (10 f r u)
  from m_Ahead_elem[OF "10.prems"(2)] obtain w where w: "w \<in> set (m f r u)"
    and v: "v = MState (prev u) (rest u) (caps w)" by blast
  have "within S w" by (rule "10.IH"[OF "10.prems"(1) w])
  then show ?case unfolding v by (rule within_caps_of[OF "10.prems"(1)])
next
  case (11 f u)
  then show ?case using m_assert_elem(2) by blast
next
  case (12 f u)
  then show ?case using m_assert_elem(3) by blast
next
  case (13 f u)
  then show ?case using m_assert_elem(4) by blast
qed

lemma m_length: "v \<in> set (m f r u) \<Longrightarrow> length (rest v) \<le> length (rest u)"
proof (induction f r u arbitrary: v rule: m.induct)
  case (1 f u)
  then show ?case using m_assert_elem(1) by blast
next
  case (2 f neg items u)
  from m_Cls_elem[OF "2.prems"] show ?case by auto
next
  case (3 f u)
  from m_Dot_elem[OF "3.prems"] show ?case by auto
next
  case (4 f w u)
  from m_Str_elem[OF "4.prems"] show ?case by (auto dest: str_match_length)
next
  case (5 f a b u)
  from m_Seq_elem[OF "5.prems"] obtain w where w: "w \<in> set (m f a u)" "v \<in> set (m f b w)"
    by blast
  from "5.IH"(1)[OF w(1)] "5.IH"(2)[OF w] show ?case by simp
next
  case (6 f a b u)
  from m_Alt_elem[OF "6.prems"] show ?case using "6.IH" by blast
next
  case (7 f r u)
  from m_Star_elem[OF "7.prems"] show ?case
  proof
    assume "v = u" then show ?thesis by simp
  next
    assume "\<exists>w \<in> set (m f r u). length (rest w) < length (rest u) \<and> v \<in> set (m f (Star r) w)"
    then obtain w where w: "w \<in> set (m f r u)" "length (rest w) < length (rest u)"
      "v \<in> set (m f (Star r) w)" by blast
    from "7.IH"(2)[OF w] w(2) show ?thesis by simp
  qed
next
  case (8 f r u)
  from m_LazyStar_elem[OF "8.prems"] show ?case
  proof
    assume "v = u" then show ?thesis by simp
  next
    assume "\<exists>w \<in> set (m f r u). length (rest w) < length (rest u) \<and> v \<in> set (m f (LazyStar r) w)"
    then obtain w where w: "w \<in> set (m f r u)" "length (rest w) < length (rest u)"
      "v \<in> set (m f (LazyStar r) w)" by blast
    from "8.IH"(2)[OF w] w(2) show ?thesis by simp
  qed
next
  case (9 f k r u)
  from m_Group_elem[OF "9.prems"] obtain w where w: "w \<in> set (m f r u)"
    and v: "v = MState (prev w) (rest w) ((k, take (length (rest u) - length (rest w)) (rest u)) # caps w)"
    by blast
  from "9.IH"[OF w] show ?case unfolding v by simp
next
  case (10 f r u)
  from m_Ahead_elem[OF "10.prems"] show ?case by auto
next
  case (11 f u)
  then show ?case using m_assert_elem(2) by blast
next
  case (12 f u)
  then show ?case using m_assert_elem(3) by blast
next
  case (13 f u)
  then show ?case using m_assert_elem(4) by blast
qed

lemma expand_set:
  "list_all (\<lambda>kv. set (snd kv) \<subseteq> S) cp \<Longrightarrow> set (expand t cp) \<subseteq> S \<union> tlits t"
proof (induction t cp rule: expand.induct)
  case (1 cp)
  then show ?case by simp
next
  case (2 c ts cp)
  then show ?case by (auto simp: tlits_def)
next
  case (3 k ts cp)
  show ?case
  proof (cases "map_of cp k")
    case None
    with 3 show ?thesis by (auto simp: tlits_def)
  next
    case (Some t)
    then have mem: "(k, t) \<in> set cp" by (rule map_of_SomeD)
    have "\<forall>kv\<in>set cp. set (snd kv) \<subseteq> S" using "3.prems" by (simp add: list_all_iff)
    from bspec[OF this mem] have "set t \<subseteq> S" by simp
    with 3 Some show ?thesis by (auto simp: tlits_def)
  qed
qed

lemma match_at_None: "match_at f r p cs = None \<longleftrightarrow> m f r (MState p cs []) = []"
  by (cases "m f r (MState p cs [])") (simp_all add: match_at_def)

lemma match_at_Some: "match_at f r p cs = Some v \<Longrightarrow> v \<in> set (m f r (MState p cs []))"
  by (cases "m f r (MState p cs [])") (auto simp: match_at_def)

lemma match_at_within: "match_at f r p cs = Some v \<Longrightarrow> within (set cs) v"
  by (rule m_within[OF _ match_at_Some]) (simp_all add: within_def)

lemma match_at_rest: "match_at f r p cs = Some v \<Longrightarrow> set (rest v) \<subseteq> set cs"
  using match_at_within[of f r p cs v] by (simp add: within_def)

lemma match_at_expand: "match_at f r p cs = Some v \<Longrightarrow> set (expand t (caps v)) \<subseteq> set cs \<union> tlits t"
  using match_at_within[of f r p cs v] expand_set[of "set cs" "caps v" t] by (simp add: within_def)

lemma replace_from_set: "set (replace_from f r t p cs) \<subseteq> set cs \<union> tlits t"
proof (induction f r t p cs rule: replace_from.induct)
  case (1 f r t p cs)
  show ?case
  proof (cases "match_at f r p cs")
    case None
    show ?thesis
    proof (cases cs)
      case Nil
      with None show ?thesis by (subst replace_from.simps) simp
    next
      case (Cons c cs')
      from "1.IH"(1)[OF None Cons] have "set (replace_from f r t (Some c) cs') \<subseteq> set cs' \<union> tlits t" .
      with None Cons show ?thesis by (subst replace_from.simps) auto
    qed
  next
    case (Some v)
    note ex = match_at_expand[OF Some, of t]
    show ?thesis
    proof (cases "length (rest v) < length cs")
      case True
      from "1.IH"(2)[OF Some True] match_at_rest[OF Some]
      have "set (replace_from f r t (prev v) (rest v)) \<subseteq> set cs \<union> tlits t" by blast
      with Some True ex show ?thesis by (subst replace_from.simps) auto
    next
      case False
      show ?thesis
      proof (cases cs)
        case Nil
        with Some False ex show ?thesis by (subst replace_from.simps) auto
      next
        case (Cons c cs')
        from "1.IH"(3)[OF Some False Cons]
        have "set (replace_from f r t (Some c) cs') \<subseteq> set cs' \<union> tlits t" .
        with Some False Cons ex show ?thesis by (subst replace_from.simps) auto
      qed
    qed
  qed
qed

lemma replace_set: "set (replace f r t s) \<subseteq> set s \<union> tlits t"
  by (simp add: replace_def replace_from_set)

lemma split_from_nonempty: "split_from f r p cs acc \<noteq> []"
proof (induction f r p cs acc rule: split_from.induct)
  case (1 f r p cs acc)
  show ?case
    by (subst split_from.simps) (use 1 in \<open>auto split: list.splits option.splits\<close>)
qed

lemma split_from_set: "l \<in> set (split_from f r p cs acc) \<Longrightarrow> set l \<subseteq> set cs \<union> set acc"
proof (induction f r p cs acc arbitrary: l rule: split_from.induct)
  case (1 f r p cs acc)
  show ?case
  proof (cases cs)
    case Nil
    with "1.prems" show ?thesis by (subst (asm) split_from.simps) auto
  next
    case (Cons c cs')
    show ?thesis
    proof (cases "match_at f r p cs")
      case None
      from "1.prems" None Cons have "l \<in> set (split_from f r (Some c) cs' (c # acc))"
        by (subst (asm) split_from.simps) simp
      from "1.IH"(1)[OF Cons None this] Cons show ?thesis by auto
    next
      case (Some v)
      note rs = match_at_rest[OF Some]
      show ?thesis
      proof (cases "length (rest v) < length cs")
        case True
        from "1.prems" Some Cons True
        have "l = rev acc \<or> l \<in> set (split_from f r (prev v) (rest v) [])"
          by (subst (asm) split_from.simps) auto
        then show ?thesis
        proof
          assume "l = rev acc" then show ?thesis by auto
        next
          assume "l \<in> set (split_from f r (prev v) (rest v) [])"
          from "1.IH"(2)[OF Cons Some True this] rs show ?thesis by auto
        qed
      next
        case False
        show ?thesis
        proof (cases "acc = []")
          case True
          from "1.prems" Some Cons False True have "l \<in> set (split_from f r (Some c) cs' [c])"
            by (subst (asm) split_from.simps) auto
          from "1.IH"(3)[OF Cons Some False True this] Cons show ?thesis by auto
        next
          case nonempty: False
          from "1.prems" Some Cons False nonempty
          have "l = rev acc \<or> l \<in> set (split_from f r (Some c) cs' [c])"
            by (subst (asm) split_from.simps) auto
          then show ?thesis
          proof
            assume "l = rev acc" then show ?thesis by auto
          next
            assume "l \<in> set (split_from f r (Some c) cs' [c])"
            from "1.IH"(4)[OF Cons Some False nonempty this] Cons show ?thesis by auto
          qed
        qed
      qed
    qed
  qed
qed

lemma split_nonempty: "s \<noteq> [] \<Longrightarrow> split f r s \<noteq> []"
  by (simp add: split_def split_from_nonempty)

lemma split_set: "l \<in> set (split f r s) \<Longrightarrow> set l \<subseteq> set s"
  using split_from_set[of l f r None s "[]"] by (auto simp: split_def split: if_splits)

lemma m_Cls: "m f (Cls neg items) (MState p (c # cs) k) =
    (if class_match (ignoreCase f) neg items c then [MState (Some c) cs k] else [])"
  by simp

lemma m_Cls_Nil: "m f (Cls neg items) (MState p [] k) = []"
  by simp

lemma match_from_Cls:
  "match_from f (Cls neg items) p cs = map (\<lambda>c. [c]) (filter (class_match (ignoreCase f) neg items) cs)"
proof (induction cs arbitrary: p)
  case Nil
  show ?case by (subst match_from.simps) (simp add: match_at_def)
next
  case (Cons c cs)
  show ?case
    by (subst match_from.simps) (simp add: match_at_def Cons)
qed

lemma search_Cls:
  "(search f (Cls neg items) p cs \<noteq> None) = list_ex (class_match (ignoreCase f) neg items) cs"
  by (induction cs arbitrary: p) (simp_all add: match_at_def)

lemma test_Cls: "test f (Cls neg items) s = list_ex (class_match (ignoreCase f) neg items) s"
  unfolding test_def by (rule search_Cls)

lemma mathSymbols_filter:
  "mathSymbols line = length (filter (class_match False False mathItems) line)"
  by (simp add: mathSymbols_def match_all_def re_math_symbol_def match_from_Cls fl_g_def)

lemma citem_match_ic: "citem_match False it c \<Longrightarrow> citem_match True it c"
proof (cases it)
  case (Range a b)
  assume "citem_match False it c"
  with Range have "a \<le> c" "c \<le> b" by simp_all
  then have "c \<in> set [a..<Suc b]" by auto
  then have "list_ex (\<lambda>d. canonicalize d = canonicalize c) [a..<Suc b]"
    unfolding list_ex_iff by (rule bexI[rotated]) simp
  with Range show ?thesis by simp
qed auto

lemma class_match_ic: "class_match False False items c \<Longrightarrow> class_match True False items c"
  by (auto simp: class_match_def list_ex_iff intro: citem_match_ic)

lemma class_match_append:
  "class_match ic False (xs @ ys) c = (class_match ic False xs c \<or> class_match ic False ys c)"
  by (auto simp: class_match_def list_ex_iff)

lemma math_op_or_var:
  "list_ex (class_match False False mathItems) line \<Longrightarrow>
     test fl_gi re_op line \<or> test fl_gi re_var line"
  by (auto simp: test_Cls re_op_def re_var_def fl_gi_def mathItems_def class_match_append list_ex_iff
           intro: class_match_ic)

lemma textWords_pos: "line \<noteq> [] \<Longrightarrow> 0 < textWords line"
  using split_nonempty[of line fl_g re_spaces] by (simp add: textWords_def)

lemma keep_line_reach:
  assumes "line \<noteq> []" and "\<not> (textWords line > mathSymbols line * 2 \<and> mathSymbols line < 3)"
  shows "test fl_gi re_op line \<or> test fl_gi re_var line"
proof -
  from assms(1) have "0 < textWords line" by (rule textWords_pos)
  with assms(2) have "mathSymbols line \<noteq> 0" by auto
  then have "filter (class_match False False mathItems) line \<noteq> []"
    by (simp add: mathSymbols_filter)
  then have "list_ex (class_match False False mathItems) line"
    by (simp add: list_ex_iff filter_empty_conv)
  then show ?thesis by (rule math_op_or_var)
qed

lemma keep_line_state: "keep_line st line = (fst (keep_line st' line), st)"
proof (cases "line = [] \<or> (textWords line > mathSymbols line * 2 \<and> mathSymbols line < 3)")
  case True
  then show ?thesis by (auto simp: keep_line_def)
next
  case False
  then have "test fl_gi re_op line \<or> test fl_gi re_var line"
    using keep_line_reach by blast
  with False show ?thesis by (auto simp: keep_line_def)
qed

lemma keep_line_keeps: "keep_line st line = (keeps line, st)"
  unfolding keeps_def by (rule keep_line_state)

lemma filter_lines_keeps: "filter_lines st ls = (filter keeps ls, st)"
  by (induction ls) (simp_all add: keep_line_keeps)

lemma run_steps_Nil: "run_steps [] s = s"
  by (simp add: run_steps_def)

lemma run_steps_Cons: "run_steps ((f, r, t) # steps) s = run_steps steps (replace f r t s)"
  by (simp add: run_steps_def)

lemma run_steps_set: "set (run_steps steps s) \<subseteq> set s \<union> steps_lits steps"
proof (induction steps arbitrary: s)
  case Nil
  show ?case by (simp add: run_steps_Nil)
next
  case (Cons a steps)
  obtain f r t where a: "a = (f, r, t)" by (cases a)
  have "set (run_steps steps (replace f r t s)) \<subseteq> set (replace f r t s) \<union> steps_lits steps"
    by (rule Cons.IH)
  moreover have "set (replace f r t s) \<subseteq> set s \<union> tlits t" by (rule replace_set)
  moreover have "steps_lits (a # steps) = tlits t \<union> steps_lits steps"
    by (simp add: steps_lits_def a)
  ultimately show ?case unfolding a run_steps_Cons by blast
qed

lemma cleanSteps_lits: "steps_lits cleanSteps = {32}"
  by (simp add: steps_lits_def cleanSteps_def tlits_def)

lemma normalizeSteps_lits: "steps_lits normalizeSteps = {32}"
  by (simp add: steps_lits_def normalizeSteps_def tlits_def)

lemma dollar_Nil: "match_at fl_g re_dollar p [] = None"
  by (simp add: match_at_def re_dollar_def Chr_def Opt_def)

lemma dollar_other: "c \<noteq> 36 \<Longrightarrow> match_at fl_g re_dollar p (c # cs) = None"
  by (simp add: match_at_def re_dollar_def Chr_def Opt_def class_match_def fl_g_def)

lemma dollar_match:
  assumes "match_at fl_g re_dollar p (36 # cs) = Some v"
  shows "length (rest v) \<le> length cs"
proof -
  have "m fl_g re_dollar (MState p (36 # cs) []) =
          m fl_g (Opt (Chr CHR ''$'')) (MState (Some 36) cs [])"
    by (simp add: re_dollar_def Chr_def class_match_def fl_g_def)
  with match_at_Some[OF assms]
  have "v \<in> set (m fl_g (Opt (Chr CHR ''$'')) (MState (Some 36) cs []))"
    by simp
  from m_length[OF this] show ?thesis by simp
qed

lemma dollar_found: "match_at fl_g re_dollar p (36 # cs) \<noteq> None"
  by (simp add: match_at_None re_dollar_def Chr_def Opt_def class_match_def fl_g_def)

lemma replace_from_dollar:
  "f = fl_g \<Longrightarrow> r = re_dollar \<Longrightarrow> t = [] \<Longrightarrow> 36 \<notin> set (replace_from f r t p cs)"
proof (induction f r t p cs rule: replace_from.induct)
  case (1 f r t p cs)
  note rt = "1.prems"
  show ?case
  proof (cases cs)
    case Nil
    then show ?thesis using rt by (subst replace_from.simps) (simp add: dollar_Nil)
  next
    case (Cons c cs')
    show ?thesis
    proof (cases "c = 36")
      case False
      then have none: "match_at f r p cs = None" using rt Cons by (simp add: dollar_other)
      from "1.IH"(1)[OF none Cons rt] False none Cons show ?thesis
        by (subst replace_from.simps) simp
    next
      case True
      with dollar_found[of p cs'] rt Cons obtain v where v: "match_at f r p cs = Some v"
        by auto
      with dollar_match[of p cs' v] rt Cons True have len: "length (rest v) < length cs"
        by simp
      from "1.IH"(2)[OF v len rt] v len rt show ?thesis
        by (subst replace_from.simps) simp
    qed
  qed
qed

lemma replace_dollar: "36 \<notin> set (replace fl_g re_dollar [] s)"
  by (simp add: replace_def replace_from_dollar)

lemma cleaned_subset: "set (cleaned s) \<subseteq> set s \<union> {32}"
  using run_steps_set[of cleanSteps s] by (simp add: cleaned_def cleanSteps_lits)

lemma cleaned_no_dollar: "36 \<notin> set (cleaned s)"
proof -
  have "cleaned s = run_steps (drop 2 cleanSteps)
                      (replace fl_g re_dollar [] (replace fl_g re_brackets [] s))"
    by (simp add: cleaned_def cleanSteps_def run_steps_Cons)
  moreover have "steps_lits (drop 2 cleanSteps) = {32}"
    by (simp add: steps_lits_def cleanSteps_def tlits_def)
  ultimately have "set (cleaned s) \<subseteq> set (replace fl_g re_dollar [] (replace fl_g re_brackets [] s)) \<union> {32}"
    using run_steps_set[of "drop 2 cleanSteps"] by metis
  with replace_dollar[of "replace fl_g re_brackets [] s"] show ?thesis by auto
qed

lemma trim_set: "set (trim s) \<subseteq> set s"
proof -
  have "set (dropWhile isWhiteSpace (rev (dropWhile isWhiteSpace s))) \<subseteq> set (rev (dropWhile isWhiteSpace s))"
    by (rule set_dropWhileD[THEN subsetI])
  also have "\<dots> \<subseteq> set s" using set_dropWhileD[of _ isWhiteSpace s] by auto
  finally show ?thesis by (simp add: trim_def)
qed

lemma normalizeVariables_set: "set (normalizeVariables line) \<subseteq> set line \<union> {32}"
  using trim_set[of "run_steps normalizeSteps line"] run_steps_set[of normalizeSteps line]
  by (auto simp: normalizeVariables_def normalizeSteps_lits)

lemma join_set: "set (join sep ls) \<subseteq> set sep \<union> \<Union> (set ` set ls)"
  by (induction sep ls rule: join.induct) auto

lemma filteredLines_set: "l \<in> set (filteredLines cl) \<Longrightarrow> set l \<subseteq> set cl"
proof -
  assume "l \<in> set (filteredLines cl)"
  then have "l \<in> set (map trim (split fl_g re_newline cl))"
    by (simp add: filteredLines_def filter_lines_keeps)
  then obtain l' where "l' \<in> set (split fl_g re_newline cl)" "l = trim l'" by auto
  with split_set[of l' fl_g re_newline cl] trim_set[of l'] show ?thesis by auto
qed

lemma pipeline_set:
  "set (trim (join [10] (map normalizeVariables (filteredLines cl)))) \<subseteq> set cl \<union> {10, 32}"
proof -
  have "set (join [10] (map normalizeVariables (filteredLines cl))) \<subseteq> set cl \<union> {10, 32}"
    using join_set[of "[10]" "map normalizeVariables (filteredLines cl)"]
      normalizeVariables_set filteredLines_set by fastforce
  with trim_set show ?thesis by blast
qed

lemma space_not_math: "\<not> class_match False False mathItems 32"
  by (simp add: class_match_def mathItems_def opItems_def varItems_def greek_def ones_def)

lemma keeps_no_math:
  assumes "\<not> list_ex (class_match False False mathItems) line"
  shows "\<not> keeps line"
proof (cases "line = []")
  case True
  then show ?thesis by (simp add: keeps_def keep_line_def)
next
  case False
  from assms have "mathSymbols line = 0"
    by (simp add: mathSymbols_filter list_ex_iff filter_empty_conv)
  with textWords_pos[OF False] show ?thesis by (simp add: keeps_def keep_line_def)
qed

lemma filteredLines_no_math:
  assumes "\<not> list_ex (class_match False False mathItems) cl"
  shows "filteredLines cl = []"
proof -
  have "\<not> keeps l" if "l \<in> set (map trim (split fl_g re_newline cl))" for l
  proof -
    from that obtain l' where "l' \<in> set (split fl_g re_newline cl)" "l = trim l'" by auto
    with split_set[of l' fl_g re_newline cl] trim_set[of l'] have "set l \<subseteq> set cl" by auto
    with assms have "\<not> list_ex (class_match False False mathItems) l"
      by (auto simp: list_ex_iff)
    then show ?thesis by (rule keeps_no_math)
  qed
  then show ?thesis by (simp add: filteredLines_def filter_lines_keeps filter_empty_conv)
qed

lemma cleaned_no_math:
  assumes "\<not> list_ex (class_match False False mathItems) s"
  shows "\<not> list_ex (class_match False False mathItems) (cleaned s)"
  using assms cleaned_subset[of s] space_not_math by (auto simp: list_ex_iff)

lemma str_match_prefix:
  "w \<noteq> [] \<Longrightarrow> str_match False w p (w @ cs) = Some (Some (last w), cs)"
proof (induction w arbitrary: p)
  case Nil
  then show ?case by simp
next
  case (Cons a w)
  then show ?case by (cases "w = []") simp_all
qed

lemma m_Str_prefix:
  "w \<noteq> [] \<Longrightarrow> m fl_g (Str w) (MState p (w @ cs) k) = [MState (Some (last w)) cs k]"
  by (simp add: str_match_prefix fl_g_def)

lemma m_Star_Cls_first:
  assumes "list_all (class_match (ignoreCase f) neg items) as"
    and "cs = [] \<or> \<not> class_match (ignoreCase f) neg items (hd cs)"
  shows "\<exists>q vs. m f (Star (Cls neg items)) (MState p (as @ cs) k) = MState q cs k # vs"
  using assms
proof (induction as arbitrary: p)
  case Nil
  then have "m f (Cls neg items) (MState p cs k) = []" by (cases cs) auto
  then show ?case by (subst m.simps(7)) simp
next
  case (Cons a as)
  from Cons.prems have a: "class_match (ignoreCase f) neg items a"
    and as: "list_all (class_match (ignoreCase f) neg items) as" by simp_all
  from Cons.IH[OF as Cons.prems(2), of "Some a"] obtain q vs where
    "m f (Star (Cls neg items)) (MState (Some a) (as @ cs) k) = MState q cs k # vs" by blast
  with a show ?case by (subst m.simps(7)) simp
qed

lemma m_Seq_first:
  "m f a u = v # vs \<Longrightarrow> m f b v = w # rs \<Longrightarrow> \<exists>zs. m f (Seq a b) u = w # zs"
  by simp

lemma not_brace: "class_match False True (ones ''}'') c = (c \<noteq> 125)"
  by (auto simp: class_match_def ones_def)

lemma frac_match:
  assumes A: "125 \<notin> set A" and B: "125 \<notin> set B"
  shows "match_at fl_g re_frac p (92 # cu ''frac{'' @ A @ cu ''}{'' @ B @ cu ''}'' @ post)
           = Some (MState (Some 125) post [])"
proof -
  let ?C = "Cls True (ones ''}'')"
  have cA: "list_all (class_match (ignoreCase fl_g) True (ones ''}'')) A"
    using A by (auto simp: list_all_iff not_brace fl_g_def)
  have cB: "list_all (class_match (ignoreCase fl_g) True (ones ''}'')) B"
    using B by (auto simp: list_all_iff not_brace fl_g_def)
  have e5: "m fl_g (Chr CHR ''}'') (MState q (125 # post) []) = [MState (Some 125) post []]" for q
    by (simp add: Chr_def class_match_def fl_g_def)
  have "\<exists>q vs. m fl_g (Star ?C) (MState q' (B @ 125 # post) []) = MState q (125 # post) [] # vs" for q'
    by (rule m_Star_Cls_first[OF cB]) (simp add: not_brace fl_g_def)
  then have e45: "\<exists>zs. m fl_g (Seq (Star ?C) (Chr CHR ''}'')) (MState q' (B @ 125 # post) [])
                    = MState (Some 125) post [] # zs" for q'
    using e5 m_Seq_first by blast
  have e3: "m fl_g (Str (cu ''}{'')) (MState q (cu ''}{'' @ B @ 125 # post) [])
              = [MState (Some 123) (B @ 125 # post) []]" for q
    using m_Str_prefix[of "cu ''}{''" q "B @ 125 # post" "[]"] by (simp add: cu_def)
  have e345: "\<exists>zs. m fl_g (Seq (Str (cu ''}{'')) (Seq (Star ?C) (Chr CHR ''}'')))
                    (MState q (cu ''}{'' @ B @ 125 # post) []) = MState (Some 125) post [] # zs" for q
    using e3 e45 m_Seq_first by blast
  have "\<exists>q vs. m fl_g (Star ?C) (MState q' (A @ cu ''}{'' @ B @ 125 # post) [])
          = MState q (cu ''}{'' @ B @ 125 # post) [] # vs" for q'
    by (rule m_Star_Cls_first[OF cA]) (simp add: not_brace fl_g_def cu_def)
  then have e2345: "\<exists>zs. m fl_g (Seq (Star ?C) (Seq (Str (cu ''}{'')) (Seq (Star ?C) (Chr CHR ''}''))))
                    (MState q' (A @ cu ''}{'' @ B @ 125 # post) []) = MState (Some 125) post [] # zs" for q'
    using e345 m_Seq_first by blast
  have e1: "m fl_g (Str (92 # cu ''frac{'')) (MState p ((92 # cu ''frac{'') @ A @ cu ''}{'' @ B @ 125 # post) [])
              = [MState (Some 123) (A @ cu ''}{'' @ B @ 125 # post) []]"
    using m_Str_prefix[of "92 # cu ''frac{''" p "A @ cu ''}{'' @ B @ 125 # post" "[]"]
    by (simp add: cu_def)
  have "\<exists>zs. m fl_g re_frac (MState p ((92 # cu ''frac{'') @ A @ cu ''}{'' @ B @ 125 # post) [])
          = MState (Some 125) post [] # zs"
    unfolding re_frac_def seqs.simps using e1 e2345 m_Seq_first by blast
  then show ?thesis by (auto simp: match_at_def cu_def)
qed

lemma replace_from_cong_prev:
  "match_at f r p cs = match_at f r q cs \<Longrightarrow> replace_from f r t p cs = replace_from f r t q cs"
  by (simp add: replace_from.simps[of f r t p cs] replace_from.simps[of f r t q cs])

lemma frac_prev: "match_at fl_g re_frac p cs = match_at fl_g re_frac q cs"
proof -
  have "m fl_g (Str (92 # cu ''frac{'')) (MState p cs []) = m fl_g (Str (92 # cu ''frac{'')) (MState q cs [])"
    by (cases cs) (simp_all add: fl_g_def split: option.splits)
  then show ?thesis by (simp add: match_at_def re_frac_def)
qed

lemma frac_other: "c \<noteq> 92 \<Longrightarrow> match_at fl_g re_frac p (c # cs) = None"
  by (simp add: match_at_def re_frac_def fl_g_def)

lemma frac_prefix:
  "92 \<notin> set pre \<Longrightarrow>
     replace_from fl_g re_frac [] p (pre @ rs) = pre @ replace_from fl_g re_frac [] None rs"
proof (induction pre arbitrary: p)
  case Nil
  show ?case using replace_from_cong_prev[OF frac_prev] by simp
next
  case (Cons c pre)
  then have "c \<noteq> 92" and "92 \<notin> set pre" by auto
  then show ?case using Cons.IH[of "Some c"]
    by (subst replace_from.simps) (simp add: frac_other)
qed

lemma frac_macro:
  assumes "125 \<notin> set A" and "125 \<notin> set B"
  shows "replace_from fl_g re_frac [] p (92 # cu ''frac{'' @ A @ cu ''}{'' @ B @ cu ''}'' @ post)
           = replace_from fl_g re_frac [] None post"
proof -
  have "replace_from fl_g re_frac [] p (92 # cu ''frac{'' @ A @ cu ''}{'' @ B @ cu ''}'' @ post)
          = replace_from fl_g re_frac [] (Some 125) post"
    by (subst replace_from.simps) (simp add: frac_match[OF assms])
  also have "\<dots> = replace_from fl_g re_frac [] None post"
    by (rule replace_from_cong_prev[OF frac_prev])
  finally show ?thesis .
qed

section \<open>Lines in canonical form\<close>









































section \<open>Evaluation on concrete inputs\<close>

lemmas eval_defs =
  cu_def isLineTerminator_def isWhiteSpace_def isDigit_def isWordChar_def canonicalize_def trim_def
  class_match_def Plus_def Opt_def Chr_def ones_def wordsOf_def wordAt_def nextUnit_def ltAt_def
  m.simps(7) m.simps(8) match_at_def test_def test_g_def
  replace_from.simps replace_def match_from.simps match_all_def split_from.simps split_def
  fl_g_def fl_gm_def fl_gi_def re_s_def re_d_def greek_def opItems_def varItems_def mathItems_def
  qualifierWords_def
  re_brackets_def re_dollar_def re_text_def re_frac_def re_line_comment_def re_block_comment_def
  re_hash_def re_step_number_def re_step_label_def re_words_def re_phrases_def re_prose_line_def
  re_aside_def re_qualifier_def re_trailing_punct_def re_bullet_lead_def re_bullet_trail_def
  re_hspace_def equipmentPattern_def methodPattern_def re_newline_def re_math_symbol_def
  re_spaces_def re_descriptive_def re_op_def re_bool_def re_choice_def re_var_def re_arith_def
  re_formula_def re_letter_digit_def re_letter_sub_def re_greek_digit_def re_greek_sub_def
  re_letter_word_def re_trailing_sep_def re_quotes_def re_tick_def re_blanks_def
  cleanSteps_def run_steps_def cleaned_def mathSymbols_def textWords_def keep_line_def
  filteredLines_def normalizeSteps_def normalizeVariables_def sanitizeOutput_def



lemma sanitize_ohm_line: "sanitizeOutput (Some (cu ''I = V/R'')) = cu ''= V/R''"
  by (simp add: eval_defs)

lemma sanitize_equipment_alone: "sanitizeOutput (Some (cu ''spectrophotometer'')) = cu ''spectrophotometer''"
  by (simp add: eval_defs)

lemma sanitize_equipment_formula:
  "sanitizeOutput (Some (cu ''spectrophotometer: A = 0.45'')) = cu ''spectrophotometer: A = 0.45''"
  by (simp add: eval_defs)

lemma sanitize_prose_sentence:
  "sanitizeOutput (Some (cu ''The total number of apples is calculated by adding them.'')) = []"
  by (simp add: eval_defs)

lemma sanitize_choice_C: "sanitizeOutput (Some (cu ''C'')) = cu ''C''"
  by (simp add: eval_defs)

lemma sanitize_True: "sanitizeOutput (Some (cu ''True'')) = []"
  by (simp add: eval_defs)

lemma keeps_True: "\<not> keeps (cu ''True'')"
  by (simp add: keeps_def eval_defs)

lemma keeps_choice_D: "\<not> keeps (cu ''D'')"
  by (simp add: keeps_def eval_defs)

section \<open>The claims\<close>

text \<open>
  Claim C1. Sanitizing the formula \<open>E = mc^2\<close> between the delimiters backslash-bracket
  should leave no delimiter. The pattern of line 66 matches an opening bracket that is
  followed at once by the closing one (each with an optional backslash), so delimiters
  around a formula do not match: the input comes back unchanged, delimiters included.
\<close>

theorem latex_brackets_stay:
  "sanitizeOutput (Some ([92] @ cu ''[E = mc^2'' @ [92] @ cu '']''))
     = [92] @ cu ''[E = mc^2'' @ [92] @ cu '']''"
  by (simp add: eval_defs)

text \<open>
  Claim C2. A line that names equipment and has no arithmetic should be dropped, one with
  arithmetic kept. The line \<open>spectrophotometer\<close> is kept: it holds the letter \<open>c\<close>, which
  line 123 takes for mathematical notation before the equipment test of line 125 is
  reached. The line with the formula is kept as claimed.
\<close>

theorem equipment_line_kept:
  "sanitizeOutput (Some (cu ''spectrophotometer'')) = cu ''spectrophotometer'' \<and>
   sanitizeOutput (Some (cu ''spectrophotometer: A = 0.45'')) = cu ''spectrophotometer: A = 0.45''"
  using sanitize_equipment_alone sanitize_equipment_formula by simp

text \<open>
  Claim C3. The answers \<open>C\<close> and \<open>True\<close> should pass unchanged, and the line filter should
  keep \<open>True\<close>, \<open>False\<close> and the letters A to E. \<open>C\<close> passes. \<open>True\<close> gives the empty
  string: it has none of the characters of the class of line 81, so that line blanks it,
  and the filter itself refuses it at line 110 (no math symbol against one word) before
  line 117 is reached, as it refuses the letter \<open>D\<close>.
\<close>

theorem true_answer_dropped:
  "sanitizeOutput (Some (cu ''C'')) = cu ''C'' \<and> sanitizeOutput (Some (cu ''True'')) = [] \<and>
   \<not> keeps (cu ''True'') \<and> \<not> keeps (cu ''D'')"
  using sanitize_choice_C sanitize_True keeps_True keeps_choice_D by simp

text \<open>
  Claim C4, as stated: removing a fraction macro leaves the text of its two operand
  groups in the output. It does not: \<open>x = \frac{a}{b}\<close> is sanitized to \<open>x =\<close>.
\<close>

theorem frac_operands_lost_counterexample:
  "sanitizeOutput (Some (cu ''x = '' @ [92] @ cu ''frac{a}{b}'')) = cu ''x =''"
  by (simp add: eval_defs)

text \<open>
  Claim C4, amended. The replacement of line 69 deletes the whole macro, operand groups
  included: in a text where no backslash stands before the macro and no closing brace
  inside the operands \<open>A\<close> and \<open>B\<close>, the text before the macro stays, the macro
  \<open>\frac{A}{B}\<close> vanishes, and the text behind it is treated in the same way.
\<close>

theorem frac_macro_removed:
  assumes "92 \<notin> set pre" and "125 \<notin> set A" and "125 \<notin> set B"
  shows "replace fl_g re_frac [] (pre @ [92] @ cu ''frac{'' @ A @ cu ''}{'' @ B @ cu ''}'' @ post)
           = pre @ replace fl_g re_frac [] post"
proof -
  let ?macro = "92 # cu ''frac{'' @ A @ cu ''}{'' @ B @ cu ''}'' @ post"
  have "replace_from fl_g re_frac [] None (pre @ ?macro) = pre @ replace_from fl_g re_frac [] None ?macro"
    using assms(1) by (rule frac_prefix)
  also have "replace_from fl_g re_frac [] None ?macro = replace_from fl_g re_frac [] None post"
    using assms(2,3) by (rule frac_macro)
  finally show ?thesis by (simp add: replace_def)
qed

theorem frac_macro_removed_witness:
  "92 \<notin> set (cu ''x = '') \<and> 125 \<notin> set (cu ''a'') \<and> 125 \<notin> set (cu ''b'') \<and>
   replace fl_g re_frac [] (cu ''x = '' @ [92] @ cu ''frac{'' @ cu ''a'' @ cu ''}{'' @ cu ''b'' @ cu ''}'' @ cu '' + 1'')
     = cu ''x = '' @ replace fl_g re_frac [] (cu '' + 1'')"
proof -
  have h: "92 \<notin> set (cu ''x = '')" "125 \<notin> set (cu ''a'')" "125 \<notin> set (cu ''b'')"
    by (simp_all add: cu_def)
  from frac_macro_removed[OF h, of "cu '' + 1''"] h show ?thesis by simp
qed




text \<open>
  Claim C6, as stated: every input without mathematical content gives the empty string.
  It does not: the prose \<open>Hello back\<close> holds the letters \<open>b\<close>, \<open>a\<close> and \<open>c\<close> of the class of
  line 107, is kept at line 123 and comes back unchanged.
\<close>

theorem prose_survives_counterexample:
  "sanitizeOutput (Some (cu ''Hello back'')) = cu ''Hello back''"
  by (simp add: eval_defs)

text \<open>
  Claim C6, amended. The sanitizer returns a string for every input and never raises:
  every function of the model is total, the matcher and the scanning loops by their
  termination proofs, and no step of the source can throw on a string. \<open>null\<close> and the
  empty string give the empty string at line 61. An input without any character of the
  math class of line 107 (whitespace alone is such an input) gives the empty string, and
  so does the pure-prose sentence of the specification, which holds such characters.
\<close>

theorem sanitize_total:
  assumes "\<not> list_ex (class_match False False mathItems) s"
  shows "sanitizeOutput None = [] \<and> sanitizeOutput (Some []) = [] \<and> sanitizeOutput (Some s) = [] \<and>
         sanitizeOutput (Some (cu ''The total number of apples is calculated by adding them.'')) = []"
proof (intro conjI)
  show "sanitizeOutput None = []" by (simp add: sanitizeOutput_def)
  show "sanitizeOutput (Some []) = []" by (simp add: sanitizeOutput_def)
  from assms have "\<not> list_ex (class_match False False mathItems) (cleaned s)"
    by (rule cleaned_no_math)
  then have "filteredLines (cleaned s) = []" by (rule filteredLines_no_math)
  then show "sanitizeOutput (Some s) = []" by (simp add: sanitizeOutput_def trim_def)
  show "sanitizeOutput (Some (cu ''The total number of apples is calculated by adding them.'')) = []"
    by (rule sanitize_prose_sentence)
qed

theorem sanitize_total_witness:
  "\<not> list_ex (class_match False False mathItems) (cu ''Hi there'') \<and>
   sanitizeOutput None = [] \<and> sanitizeOutput (Some []) = [] \<and>
   sanitizeOutput (Some (cu ''Hi there'')) = [] \<and>
   sanitizeOutput (Some (cu ''The total number of apples is calculated by adding them.'')) = []"
proof -
  have h: "\<not> list_ex (class_match False False mathItems) (cu ''Hi there'')"
    by (simp add: cu_def class_match_def mathItems_def opItems_def varItems_def greek_def ones_def)
  from sanitize_total[OF h] h show ?thesis by simp
qed

text \<open>
  Claim C7. The output is a function of the input string alone. The only state in
  \<open>sanitizeOutput\<close> is the \<open>lastIndex\<close> of its two local pattern objects with the \<open>g\<close> flag:
  the result is the same from whatever values they start (the source starts them at 0 in
  every call), and the line filter leaves them as they were, so nothing is carried from
  one line or one call to the next.
\<close>

theorem sanitize_deterministic:
  "sanitizeOutput raw =
     (case raw of
        None \<Rightarrow> []
      | Some s \<Rightarrow>
          if s = [] then []
          else trim (join [10] (map normalizeVariables
                 (fst (filter_lines st (map trim (split fl_g re_newline (cleaned s))))))))
   \<and> snd (filter_lines st ls) = st"
proof
  have kept: "fst (filter_lines st' lines) = filter keeps lines" for st' lines
    by (simp add: filter_lines_keeps)
  show "sanitizeOutput raw =
     (case raw of
        None \<Rightarrow> []
      | Some s \<Rightarrow>
          if s = [] then []
          else trim (join [10] (map normalizeVariables
                 (fst (filter_lines st (map trim (split fl_g re_newline (cleaned s))))))))"
    by (cases raw) (simp_all add: sanitizeOutput_def filteredLines_def kept)
  show "snd (filter_lines st ls) = st"
    by (simp add: filter_lines_keeps)
qed

text \<open>
  Claim C8. The input \<open>v 0 = 5\<close>, line feed, \<open>F net = 10\<close> is sanitized to \<open>v0 = 5\<close>, line
  feed, \<open>Fnet = 10\<close>: the letter and the digit, and the letter and the subscript word,
  are joined.
\<close>

theorem variable_joining:
  "sanitizeOutput (Some (cu ''v 0 = 5'' @ [10] @ cu ''F net = 10''))
     = cu ''v0 = 5'' @ [10] @ cu ''Fnet = 10''"
  by (simp add: eval_defs)


text \<open>
  Claim C10. The output never holds a dollar sign (code unit 36): line 67 removes every
  one, paired or not, and no later step brings one in.
\<close>

theorem output_has_no_dollar: "36 \<notin> set (sanitizeOutput raw)"
proof (cases raw)
  case None
  then show ?thesis by (simp add: sanitizeOutput_def)
next
  case (Some s)
  have "36 \<notin> set (cleaned s)" by (rule cleaned_no_dollar)
  moreover have "set (trim (join [10] (map normalizeVariables (filteredLines (cleaned s)))))
                   \<subseteq> set (cleaned s) \<union> {10, 32}"
    by (rule pipeline_set)
  ultimately have "36 \<notin> set (trim (join [10] (map normalizeVariables (filteredLines (cleaned s)))))"
    by auto
  with Some show ?thesis by (simp add: sanitizeOutput_def)
qed

end
